theory Spec2Isabelle
  imports Complex_Main "HOL-Library.AList" "HOL-Library.Multiset"
begin

section \<open>Data model\<close>

text \<open>
  The module \<^verbatim>\<open>prometheus_client/multiprocess.py\<close> works on a directory of keyed
  float stores, one file per process and metric class. A store key is the JSON text of
  the 4-tuple (metric name, sample name, label names, label values); the model keeps the
  decoded tuple, so \<^verbatim>\<open>json.loads\<close> and \<^verbatim>\<open>json.dumps\<close> are the identity.
  A sample value is a 64-bit float in the code and a real number here: rounding,
  infinities and NaN are outside this model.

  Python dictionaries are association lists with at most one entry per key, in
  insertion order; \<^const>\<open>AList.update\<close> is the subscript assignment (replace in
  place, or append a new key at the end).
\<close>

type_synonym labels = "(string \<times> string) list"

type_synonym sample_key = "string \<times> string \<times> string list \<times> string list"

type_synonym store = "(sample_key \<times> real) list"

type_synonym directory = "(string \<times> store) list"

datatype error = IndexError | TypeError | ValueError | NoSuchFile | IOError nat

text \<open>\<^verbatim>\<open>s.split(c)\<close> of Python: the pieces between the occurrences of \<open>c\<close>.\<close>

fun split_on :: "char \<Rightarrow> string \<Rightarrow> string list" where
  "split_on c [] = [[]]"
| "split_on c (x # xs) =
     (if x = c then [] # split_on c xs
      else (case split_on c xs of
              [] \<Rightarrow> [[x]]
            | p # ps \<Rightarrow> (x # p) # ps))"

text \<open>\<^verbatim>\<open>parts[i]\<close> for a non-negative index: IndexError out of range.\<close>

definition item :: "'a list \<Rightarrow> nat \<Rightarrow> error + 'a" where
  "item xs i = (if i < length xs then Inr (xs ! i) else Inl IndexError)"

definition startswith :: "string \<Rightarrow> string \<Rightarrow> bool" where
  "startswith s p = (take (length p) s = p)"

definition endswith :: "string \<Rightarrow> string \<Rightarrow> bool" where
  "endswith s p = (length p \<le> length s \<and> drop (length s - length p) s = p)"

section \<open>The store collaborator\<close>

text \<open>
  Modelled from the spec: the class \<^verbatim>\<open>core._MmapedDict\<close> is not part of the source
  at hand. Its contract: \<^verbatim>\<open>read_all_values()\<close> gives all (key, value) pairs;
  \<^verbatim>\<open>read_value(key, init)\<close> gives the stored value, or the unset sentinel
  \<^verbatim>\<open>None\<close> when the key is absent and initialisation is suppressed, or else
  initialises the key and gives the default 0.0; \<^verbatim>\<open>write_value(key, value)\<close>
  is an upsert. A call \<^verbatim>\<open>read_value(key)\<close> without the second argument initialises:
  \<^verbatim>\<open>compact\<close> adds to its result, which is then a float.
\<close>

definition read_all_values :: "store \<Rightarrow> (sample_key \<times> real) list" where
  "read_all_values st = st"

definition read_value :: "store \<Rightarrow> sample_key \<Rightarrow> bool \<Rightarrow> real option \<times> store" where
  "read_value st key init =
     (case map_of st key of
        Some v \<Rightarrow> (Some v, st)
      | None \<Rightarrow> if init then (Some 0, AList.update key 0 st) else (None, st))"

definition write_value :: "store \<Rightarrow> sample_key \<Rightarrow> real \<Rightarrow> store" where
  "write_value st key v = AList.update key v st"

section \<open>compact\<close>

text \<open>
  The body of the loop of \<^verbatim>\<open>compact\<close> for one (key, value) of the source, on the
  destination store. \<open>mm\<close> is \<^verbatim>\<open>parts[1]\<close> for a gauge file and \<^verbatim>\<open>None\<close>
  otherwise. A gauge whose mode is none of min, max, all writes nothing.
\<close>

definition compact_entry ::
  "string \<Rightarrow> string option \<Rightarrow> string \<Rightarrow> store \<Rightarrow> sample_key \<times> real \<Rightarrow> error + store" where
  "compact_entry typ mm pid dst kv =
     (case kv of (key, value) \<Rightarrow>
      if typ = ''gauge'' then
        if mm = Some ''min'' then
          (case read_value dst key False of (vnow, dst1) \<Rightarrow>
             if (case vnow of None \<Rightarrow> True | Some c \<Rightarrow> value < c)
             then Inr (write_value dst1 key value) else Inr dst1)
        else if mm = Some ''max'' then
          (case read_value dst key True of
             (None, dst1) \<Rightarrow> Inl TypeError
           | (Some c0, dst1) \<Rightarrow>
               if value > c0 then
                 (case read_value dst1 key False of (vnow, dst2) \<Rightarrow>
                    if (case vnow of None \<Rightarrow> True | Some c \<Rightarrow> value > c)
                    then Inr (write_value dst2 key value) else Inr dst2)
               else Inr dst1)
        else if mm = Some ''all'' then
          (case key of (metric_name, name, labelnames, labelvalues) \<Rightarrow>
             Inr (write_value dst
                    (metric_name, name, labelnames @ [''pid''], labelvalues @ [pid]) value))
        else Inr dst
      else
        (case read_value dst key True of
           (None, dst1) \<Rightarrow> Inl TypeError
         | (Some c, dst1) \<Rightarrow> Inr (write_value dst1 key (c + value))))"

fun compact_loop ::
  "string \<Rightarrow> string option \<Rightarrow> string \<Rightarrow> store \<Rightarrow> (sample_key \<times> real) list \<Rightarrow> error + store" where
  "compact_loop typ mm pid dst [] = Inr dst"
| "compact_loop typ mm pid dst (kv # kvs) =
     (case compact_entry typ mm pid dst kv of
        Inl e \<Rightarrow> Inl e
      | Inr dst1 \<Rightarrow> compact_loop typ mm pid dst1 kvs)"

text \<open>The name of the archive of a class: \<^verbatim>\<open>if mm:\<close> is false for None and for ''.\<close>

definition archive_name :: "string \<Rightarrow> string option \<Rightarrow> string" where
  "archive_name typ mm =
     (case mm of
        None \<Rightarrow> typ @ ''_archived.db''
      | Some m \<Rightarrow> if m = [] then typ @ ''_archived.db''
                  else typ @ ''_'' @ m @ ''_archived.db'')"

text \<open>
  \<^verbatim>\<open>compact(srcf)\<close> on the directory (files by base name). The source is opened
  read-only and must exist; the destination is created empty when absent. The
  exclusive lock on the coordination file is held around the whole body and has no
  effect on a single caller.
\<close>

definition compact :: "string \<Rightarrow> directory \<Rightarrow> error + directory" where
  "compact srcf dir =
     (let parts = split_on CHR ''_'' srcf in
      (case item parts 0 of Inl e \<Rightarrow> Inl e | Inr typ \<Rightarrow>
      (case (if typ = ''gauge'' then map_sum id Some (item parts 1) else Inr None) of
         Inl e \<Rightarrow> Inl e | Inr mm \<Rightarrow>
      (case (if typ = ''gauge'' then item parts 2 else item parts 1) of
         Inl e \<Rightarrow> Inl e | Inr pid \<Rightarrow>
      (let dstf = archive_name typ mm in
      (case map_of dir srcf of None \<Rightarrow> Inl NoSuchFile | Some src \<Rightarrow>
      (let dst = (case map_of dir dstf of None \<Rightarrow> [] | Some st \<Rightarrow> st) in
      (case compact_loop typ mm pid dst (read_all_values src) of
         Inl e \<Rightarrow> Inl e
       | Inr dst' \<Rightarrow> Inr (AList.delete srcf (AList.update dstf dst' dir))))))))))"

text \<open>The value stored under a key in a file of the directory, if any.\<close>

definition stored :: "directory \<Rightarrow> string \<Rightarrow> sample_key \<Rightarrow> real option" where
  "stored dir f key = (case map_of dir f of None \<Rightarrow> None | Some st \<Rightarrow> map_of st key)"

section \<open>MultiProcessCollector.collect\<close>










type_synonym 'b bucket_dict = "(labels \<times> ('b \<times> real) list) list"


definition add_to :: "('k \<times> real) list \<Rightarrow> 'k \<Rightarrow> real \<Rightarrow> ('k \<times> real) list" where
  "add_to d k v = AList.update k ((case map_of d k of None \<Rightarrow> 0 | Some c \<Rightarrow> c) + v) d"











section \<open>Notions used in the statements\<close>















text \<open>The rows of a histogram with a threshold label, folded into the buckets dictionary.\<close>

fun bucket_rows :: "'b bucket_dict \<Rightarrow> (labels \<times> 'b \<times> real) list \<Rightarrow> 'b bucket_dict" where
  "bucket_rows bd [] = bd"
| "bucket_rows bd ((g, b, v) # rest) =
     bucket_rows (AList.update g (add_to (case map_of bd g of None \<Rightarrow> [] | Some vs \<Rightarrow> vs) b v) bd) rest"





section \<open>mark\_process\_dead\<close>

text \<open>
  The files of a dead process are found by the pattern \<^verbatim>\<open>*_{pid}_*.db\<close>: the name
  ends with \<^verbatim>\<open>.db\<close>, the text \<^verbatim>\<open>_{pid}_\<close> occurs before that ending, and the name
  does not start with a dot (which \<^verbatim>\<open>*\<close> does not match). \<open>pid\<close> is the decimal
  text of the process id.
\<close>

definition contains :: "string \<Rightarrow> string \<Rightarrow> bool" where
  "contains s p = list_ex (\<lambda>i. take (length p) (drop i s) = p) [0..<Suc (length s)]"

definition matches_pid :: "string \<Rightarrow> string \<Rightarrow> bool" where
  "matches_pid pid fn =
     (\<not> startswith fn ''.'' \<and> endswith fn ''.db'' \<and>
      contains (take (length fn - 3) fn) (''_'' @ pid @ ''_''))"

definition glob_pid :: "string \<Rightarrow> directory \<Rightarrow> string list" where
  "glob_pid pid dir = filter (matches_pid pid) (map fst dir)"

text \<open>
  The outcome of \<^verbatim>\<open>fcntl.flock(fd, LOCK_EX | LOCK_NB)\<close> on a file depends on the other
  processes; it is a parameter, a function from the file name: the lock is acquired,
  or IOError with errno EWOULDBLOCK is raised, or IOError with another errno.
\<close>

datatype flock_result = Acquired | WouldBlock | Failed nat

text \<open>
  What the function does to files and handles, in program order: \<open>Open f\<close> and
  \<open>Close f\<close> are the entry and the exit of the \<^verbatim>\<open>with open(f, 'rb')\<close> block,
  \<open>Flock f\<close> an acquired lock on the handle, \<open>Remove f\<close> is \<^verbatim>\<open>os.remove(f)\<close>
  and \<open>Compact f\<close> the call \<^verbatim>\<open>compact(f)\<close>.
\<close>

datatype event = Open string | Flock string | Close string | Remove string | Compact string

type_synonym dead_state = "directory \<times> event list"

text \<open>
  The loop over the matched files. The result is the state reached and the exception
  that ended the loop, if any. Leaving the \<^verbatim>\<open>with\<close> block closes the handle on every
  path: \<^verbatim>\<open>continue\<close>, \<^verbatim>\<open>raise\<close> and the normal exit; removal and compaction come
  after the block.
\<close>

fun mark_loop ::
  "(string \<Rightarrow> flock_result) \<Rightarrow> string list \<Rightarrow> dead_state \<Rightarrow> dead_state \<times> error option" where
  "mark_loop probe [] s = (s, None)"
| "mark_loop probe (f # fs) (dir, tr) =
     (case map_of dir f of
        None \<Rightarrow> ((dir, tr), Some NoSuchFile)
      | Some st \<Rightarrow>
         (case probe f of
            Failed errno \<Rightarrow> ((dir, tr @ [Open f, Close f]), Some (IOError errno))
          | WouldBlock \<Rightarrow> mark_loop probe fs (dir, tr @ [Open f, Close f])
          | Acquired \<Rightarrow>
              (if startswith f ''gauge_live''
               then mark_loop probe fs
                      (AList.delete f dir, tr @ [Open f, Flock f, Close f, Remove f])
               else (case compact f dir of
                       Inl e \<Rightarrow> ((dir, tr @ [Open f, Flock f, Close f, Compact f]), Some e)
                     | Inr dir' \<Rightarrow>
                         mark_loop probe fs
                           (dir', tr @ [Open f, Flock f, Close f, Compact f])))))"

definition mark_process_dead ::
  "(string \<Rightarrow> flock_result) \<Rightarrow> string \<Rightarrow> directory \<Rightarrow> dead_state \<times> error option" where
  "mark_process_dead probe pid dir = mark_loop probe (glob_pid pid dir) (dir, [])"

text \<open>
  Replaying a trace: the first component is the files on which a lock of a probing
  handle is held, the second the files whose probe succeeded and whose handle was closed
  since. The replay fails (None) when a file is removed or compacted while a lock on it
  is held, or without a completed successful probe.
\<close>

fun replay :: "string list \<times> string list \<Rightarrow> event list \<Rightarrow> (string list \<times> string list) option" where
  "replay s [] = Some s"
| "replay (held, probed) (Open f # es) = replay (held, probed) es"
| "replay (held, probed) (Flock f # es) = replay (f # held, probed) es"
| "replay (held, probed) (Close f # es) =
     (if f \<in> set held then replay (removeAll f held, f # probed) es
      else replay (held, probed) es)"
| "replay (held, probed) (Remove f # es) =
     (if f \<in> set held then None
      else if f \<in> set probed then replay (held, removeAll f probed) es
      else None)"
| "replay (held, probed) (Compact f # es) =
     (if f \<in> set held then None
      else if f \<in> set probed then replay (held, removeAll f probed) es
      else None)"

section \<open>Example inputs\<close>

text \<open>A probe that would block on one file, fails with errno 13 on another and succeeds elsewhere.\<close>

definition probe_example :: "string \<Rightarrow> flock_result" where
  "probe_example f =
     (if f = ''counter_7_x.db'' then WouldBlock
      else if f = ''summary_7_x.db'' then Failed 13
      else Acquired)"

definition gauge_row :: "sample_key \<times> real" where
  "gauge_row = ((''g'', ''g'', [''l''], [''a'']), 2)"






section \<open>Properties of compact\<close>

lemma compact_entry_min:
  "\<exists>dst'. compact_entry ''gauge'' (Some ''min'') pid dst (k, v) = Inr dst' \<and>
     map_of dst' = (map_of dst)(k \<mapsto> (case map_of dst k of None \<Rightarrow> v | Some c \<Rightarrow> min c v))"
  by (auto simp: compact_entry_def read_value_def write_value_def update_conv' fun_eq_iff
      split: option.splits)

lemma compact_entry_sum:
  "typ \<noteq> ''gauge'' \<Longrightarrow> \<exists>dst'. compact_entry typ mm pid dst (k, v) = Inr dst' \<and>
     map_of dst' = (map_of dst)(k \<mapsto> (case map_of dst k of None \<Rightarrow> 0 | Some c \<Rightarrow> c) + v)"
  by (auto simp: compact_entry_def read_value_def write_value_def update_conv' fun_eq_iff
      split: option.splits)

lemma compact_entry_all:
  "compact_entry ''gauge'' (Some ''all'') pid dst ((mn, n, lns, lvs), v) =
     Inr (AList.update (mn, n, lns @ [''pid''], lvs @ [pid]) v dst)"
  by (simp add: compact_entry_def write_value_def)

lemma compact_entry_live:
  "m \<noteq> ''min'' \<Longrightarrow> m \<noteq> ''max'' \<Longrightarrow> m \<noteq> ''all'' \<Longrightarrow>
   compact_entry ''gauge'' (Some m) pid dst kv = Inr dst"
  by (simp add: compact_entry_def split: prod.splits)

lemma compact_loop_live:
  "m \<noteq> ''min'' \<Longrightarrow> m \<noteq> ''max'' \<Longrightarrow> m \<noteq> ''all'' \<Longrightarrow>
   compact_loop ''gauge'' (Some m) pid dst src = Inr dst"
  by (induction src) (simp_all add: compact_entry_live)

lemma compact_loop_pointwise:
  assumes step: "\<And>dst k v. \<exists>dst'. compact_entry ty mm pid dst (k, v) = Inr dst' \<and>
                   map_of dst' = (map_of dst)(k \<mapsto> f (map_of dst k) v)"
    and "distinct (map fst src)"
  shows "\<exists>dst'. compact_loop ty mm pid dst src = Inr dst' \<and>
           (\<forall>k. map_of dst' k = (case map_of src k of None \<Rightarrow> map_of dst k
                                   | Some v \<Rightarrow> Some (f (map_of dst k) v)))"
  using assms(2)
proof (induction src arbitrary: dst)
  case Nil
  then show ?case by simp
next
  case (Cons kv src)
  obtain k v where kv: "kv = (k, v)" by (cases kv)
  from step[of dst k v] obtain d1 where d1: "compact_entry ty mm pid dst (k, v) = Inr d1"
    "map_of d1 = (map_of dst)(k \<mapsto> f (map_of dst k) v)" by blast
  from Cons.prems kv have dis: "distinct (map fst src)" and nk: "k \<notin> fst ` set src" by auto
  from Cons.IH[OF dis, of d1] obtain d2 where d2: "compact_loop ty mm pid d1 src = Inr d2"
    "\<forall>k. map_of d2 k = (case map_of src k of None \<Rightarrow> map_of d1 k
                                   | Some v \<Rightarrow> Some (f (map_of d1 k) v))" by blast
  have none: "map_of src k = None" using nk by (simp add: map_of_eq_None_iff)
  show ?case
  proof (intro exI conjI allI)
    show "compact_loop ty mm pid dst (kv # src) = Inr d2" using kv d1 d2 by simp
  next
    fix k'
    show "map_of d2 k' = (case map_of (kv # src) k' of None \<Rightarrow> map_of dst k'
                                   | Some v \<Rightarrow> Some (f (map_of dst k') v))"
      using d2(2)[rule_format, of k'] d1(2) kv none
      by (cases "k' = k") (auto split: option.splits)
  qed
qed

lemma compact_loop_all:
  assumes "distinct (map fst src)"
  shows "\<exists>dst'. compact_loop ''gauge'' (Some ''all'') pid dst src = Inr dst' \<and>
           (\<forall>mn n lns lvs v. ((mn, n, lns, lvs), v) \<in> set src \<longrightarrow>
               map_of dst' (mn, n, lns @ [''pid''], lvs @ [pid]) = Some v) \<and>
           (\<forall>k'. k' \<notin> (\<lambda>(mn, n, lns, lvs). (mn, n, lns @ [''pid''], lvs @ [pid])) ` fst ` set src \<longrightarrow>
               map_of dst' k' = map_of dst k')"
  using assms
proof (induction src arbitrary: dst)
  case Nil
  then show ?case by simp
next
  case (Cons kv src)
  obtain mn n lns lvs v where kv: "kv = ((mn, n, lns, lvs), v)" by (cases kv) auto
  let ?k = "(mn, n, lns @ [''pid''], lvs @ [pid])"
  let ?d1 = "AList.update ?k v dst"
  from Cons.prems kv have dis: "distinct (map fst src)"
    and nk: "(mn, n, lns, lvs) \<notin> fst ` set src" by auto
  from Cons.IH[OF dis, of ?d1] obtain d2 where
    run: "compact_loop ''gauge'' (Some ''all'') pid ?d1 src = Inr d2"
    and new: "\<And>mn n lns lvs v. ((mn, n, lns, lvs), v) \<in> set src \<Longrightarrow>
               map_of d2 (mn, n, lns @ [''pid''], lvs @ [pid]) = Some v"
    and old: "\<And>k'. k' \<notin> (\<lambda>(mn, n, lns, lvs). (mn, n, lns @ [''pid''], lvs @ [pid])) ` fst ` set src \<Longrightarrow>
               map_of d2 k' = map_of ?d1 k'"
    by blast
  have fresh: "?k \<notin> (\<lambda>(mn, n, lns, lvs). (mn, n, lns @ [''pid''], lvs @ [pid])) ` fst ` set src"
    using nk by (auto simp: image_iff)
  show ?case
  proof (intro exI conjI allI impI)
    show "compact_loop ''gauge'' (Some ''all'') pid dst (kv # src) = Inr d2"
      using kv run by (simp add: compact_entry_all)
  next
    fix mn' n' lns' lvs' v'
    assume "((mn', n', lns', lvs'), v') \<in> set (kv # src)"
    then consider "((mn', n', lns', lvs'), v') = kv" | "((mn', n', lns', lvs'), v') \<in> set src"
      by auto
    then show "map_of d2 (mn', n', lns' @ [''pid''], lvs' @ [pid]) = Some v'"
    proof cases
      case 1
      then show ?thesis using old[OF fresh] kv by (simp add: update_conv')
    next
      case 2
      then show ?thesis by (rule new)
    qed
  next
    fix k'
    assume a: "k' \<notin> (\<lambda>(mn, n, lns, lvs). (mn, n, lns @ [''pid''], lvs @ [pid])) ` fst ` set (kv # src)"
    then have "k' \<noteq> ?k" and "k' \<notin> (\<lambda>(mn, n, lns, lvs). (mn, n, lns @ [''pid''], lvs @ [pid])) ` fst ` set src"
      using kv by auto
    then show "map_of d2 k' = map_of dst k'"
      using old[of k'] by (simp add: update_conv')
  qed
qed

lemma compact_gauge:
  assumes "split_on CHR ''_'' srcf = ''gauge'' # m # pid # rest"
    and "map_of dir srcf = Some src"
    and "compact_loop ''gauge'' (Some m) pid
           (case map_of dir (archive_name ''gauge'' (Some m)) of None \<Rightarrow> [] | Some st \<Rightarrow> st) src = Inr dst'"
  shows "compact srcf dir =
           Inr (AList.delete srcf (AList.update (archive_name ''gauge'' (Some m)) dst' dir))"
  using assms by (simp add: compact_def item_def read_all_values_def)

lemma compact_other:
  assumes "split_on CHR ''_'' srcf = typ # pid # rest" and "typ \<noteq> ''gauge''"
    and "map_of dir srcf = Some src"
    and "compact_loop typ None pid
           (case map_of dir (archive_name typ None) of None \<Rightarrow> [] | Some st \<Rightarrow> st) src = Inr dst'"
  shows "compact srcf dir =
           Inr (AList.delete srcf (AList.update (archive_name typ None) dst' dir))"
  using assms by (simp add: compact_def item_def read_all_values_def)

lemma stored_after:
  "srcf \<noteq> dstf \<Longrightarrow> stored (AList.delete srcf (AList.update dstf dst' dir)) dstf k = map_of dst' k"
  by (simp add: stored_def delete_conv' update_conv')

lemma stored_dst:
  "map_of (case map_of dir f of None \<Rightarrow> [] | Some st \<Rightarrow> st) k = stored dir f k"
  by (simp add: stored_def split: option.splits)

text \<open>
  Claim C5. For every (key, value) pair of a gauge/min source file, \<^verbatim>\<open>compact\<close>
  succeeds and leaves under the key, in the archive \<^verbatim>\<open>gauge_min_archived.db\<close>, the
  minimum of the value the archive held and the incoming value; when the archive did not
  hold the key (in particular when the archive did not exist), the incoming value itself
  is stored, never 0.
\<close>

theorem compact_gauge_min:
  assumes "split_on CHR ''_'' srcf = ''gauge'' # ''min'' # pid # rest"
    and "srcf \<noteq> ''gauge_min_archived.db''"
    and "map_of dir srcf = Some src"
    and "distinct (map fst src)"
    and "(key, value) \<in> set src"
  shows "\<exists>dir'. compact srcf dir = Inr dir' \<and>
           stored dir' ''gauge_min_archived.db'' key =
             Some (case stored dir ''gauge_min_archived.db'' key of
                     None \<Rightarrow> value
                   | Some c \<Rightarrow> min c value)"
proof -
  let ?dst = "case map_of dir (archive_name ''gauge'' (Some ''min'')) of None \<Rightarrow> [] | Some st \<Rightarrow> st"
  from compact_loop_pointwise[where ty = "''gauge''" and mm = "Some ''min''" and pid = pid
      and f = "\<lambda>cur v. case cur of None \<Rightarrow> v | Some c \<Rightarrow> min c v" and src = src and dst = "?dst",
      OF compact_entry_min assms(4)]
  obtain dst' where run: "compact_loop ''gauge'' (Some ''min'') pid ?dst src = Inr dst'"
    and val: "\<And>k. map_of dst' k = (case map_of src k of None \<Rightarrow> map_of ?dst k
               | Some v \<Rightarrow> Some (case map_of ?dst k of None \<Rightarrow> v | Some c \<Rightarrow> min c v))"
    by blast
  have src: "map_of src key = Some value" using assms(4,5) by simp
  have an: "archive_name ''gauge'' (Some ''min'') = ''gauge_min_archived.db''"
    by (simp add: archive_name_def)
  have "compact srcf dir = Inr (AList.delete srcf (AList.update ''gauge_min_archived.db'' dst' dir))"
    using compact_gauge[OF assms(1,3) run] an by simp
  moreover have "stored (AList.delete srcf (AList.update ''gauge_min_archived.db'' dst' dir))
                   ''gauge_min_archived.db'' key =
             Some (case stored dir ''gauge_min_archived.db'' key of
                     None \<Rightarrow> value | Some c \<Rightarrow> min c value)"
    using val[of key] src assms(2) stored_dst[of dir "''gauge_min_archived.db''" key] an
    by (simp add: stored_after)
  ultimately show ?thesis by blast
qed

theorem compact_gauge_min_witness:
  "\<exists>dir'. compact ''gauge_min_7_x.db''
             [(''gauge_min_7_x.db'', [((''g'', ''g'', [''l''], [''a'']), 3)])] = Inr dir' \<and>
          stored dir' ''gauge_min_archived.db'' (''g'', ''g'', [''l''], [''a'']) = Some 3"
  using compact_gauge_min[of "''gauge_min_7_x.db''" "''7''" "[''x.db'']"
      "[(''gauge_min_7_x.db'', [((''g'', ''g'', [''l''], [''a'']), 3)])]"
      "[((''g'', ''g'', [''l''], [''a'']), 3)]" "(''g'', ''g'', [''l''], [''a''])" 3]
  by (simp add: stored_def)

lemma compact_entry_max:
  "\<exists>dst'. compact_entry ''gauge'' (Some ''max'') pid dst (k, v) = Inr dst' \<and>
     map_of dst' = (map_of dst)(k \<mapsto> max (case map_of dst k of None \<Rightarrow> 0 | Some c \<Rightarrow> c) v)"
  by (auto simp: compact_entry_def read_value_def write_value_def update_conv' fun_eq_iff
      split: option.splits)

text \<open>
  Claim C2, amended. For every (key, value) pair of a source file whose type is not gauge
  (counter, histogram, summary), \<^verbatim>\<open>compact\<close> succeeds and leaves under the key, in
  the archive of the type, the value the archive held (0 when it held none) plus the
  incoming value. A gauge/livesum source is not merged: \<^verbatim>\<open>compact\<close> succeeds and
  the archive holds under every key what it held before.
\<close>

theorem compact_sum:
  assumes "map_of dir srcf = Some src"
    and "distinct (map fst src)"
    and "(key, value) \<in> set src"
  shows "(split_on CHR ''_'' srcf = typ # pid # rest \<and> typ \<noteq> ''gauge'' \<and>
          srcf \<noteq> typ @ ''_archived.db'' \<longrightarrow>
            (\<exists>dir'. compact srcf dir = Inr dir' \<and>
               stored dir' (typ @ ''_archived.db'') key =
                 Some ((case stored dir (typ @ ''_archived.db'') key of
                          None \<Rightarrow> 0
                        | Some c \<Rightarrow> c) + value))) \<and>
         (split_on CHR ''_'' srcf = ''gauge'' # ''livesum'' # pid # rest \<and>
          srcf \<noteq> ''gauge_livesum_archived.db'' \<longrightarrow>
            (\<exists>dir'. compact srcf dir = Inr dir' \<and>
               (\<forall>k. stored dir' ''gauge_livesum_archived.db'' k =
                    stored dir ''gauge_livesum_archived.db'' k)))"
proof (intro conjI impI)
  assume a: "split_on CHR ''_'' srcf = typ # pid # rest \<and> typ \<noteq> ''gauge'' \<and>
          srcf \<noteq> typ @ ''_archived.db''"
  let ?arch = "typ @ ''_archived.db''"
  let ?dst = "case map_of dir (archive_name typ None) of None \<Rightarrow> [] | Some st \<Rightarrow> st"
  have an: "archive_name typ None = ?arch" by (simp add: archive_name_def)
  from a have ng: "typ \<noteq> ''gauge''" by simp
  from compact_loop_pointwise[where ty = "typ" and mm = None and pid = pid
      and f = "\<lambda>cur v. (case cur of None \<Rightarrow> 0 | Some c \<Rightarrow> c) + v" and src = src and dst = "?dst",
      OF compact_entry_sum[OF ng] assms(2)]
  obtain dst' where run: "compact_loop typ None pid ?dst src = Inr dst'"
    and val: "\<And>k. map_of dst' k = (case map_of src k of None \<Rightarrow> map_of ?dst k
               | Some v \<Rightarrow> Some ((case map_of ?dst k of None \<Rightarrow> 0 | Some c \<Rightarrow> c) + v))"
    by blast
  have src: "map_of src key = Some value" using assms(2,3) by simp
  have "compact srcf dir = Inr (AList.delete srcf (AList.update ?arch dst' dir))"
    using compact_other[OF _ ng assms(1) run] a an by simp
  moreover have "stored (AList.delete srcf (AList.update ?arch dst' dir)) ?arch key =
             Some ((case stored dir ?arch key of None \<Rightarrow> 0 | Some c \<Rightarrow> c) + value)"
    using val[of key] src a stored_dst[of dir ?arch key] an
    by (simp add: stored_after)
  ultimately show "\<exists>dir'. compact srcf dir = Inr dir' \<and>
               stored dir' ?arch key =
                 Some ((case stored dir ?arch key of None \<Rightarrow> 0 | Some c \<Rightarrow> c) + value)"
    by blast
next
  assume a: "split_on CHR ''_'' srcf = ''gauge'' # ''livesum'' # pid # rest \<and>
          srcf \<noteq> ''gauge_livesum_archived.db''"
  let ?arch = "''gauge_livesum_archived.db''"
  let ?dst = "case map_of dir (archive_name ''gauge'' (Some ''livesum'')) of None \<Rightarrow> [] | Some st \<Rightarrow> st"
  have an: "archive_name ''gauge'' (Some ''livesum'') = ?arch" by (simp add: archive_name_def)
  have run: "compact_loop ''gauge'' (Some ''livesum'') pid ?dst src = Inr ?dst"
    by (rule compact_loop_live) simp_all
  have "compact srcf dir = Inr (AList.delete srcf (AList.update ?arch ?dst dir))"
    using compact_gauge[OF _ assms(1) run] a an by simp
  moreover have "\<forall>k. stored (AList.delete srcf (AList.update ?arch ?dst dir)) ?arch k =
                   stored dir ?arch k"
    using a stored_dst[of dir ?arch] an by (simp add: stored_after)
  ultimately show "\<exists>dir'. compact srcf dir = Inr dir' \<and>
               (\<forall>k. stored dir' ?arch k = stored dir ?arch k)"
    by blast
qed

theorem compact_sum_witness:
  "(\<exists>dir'. compact ''counter_7_x.db''
              [(''counter_7_x.db'', [((''c'', ''c'', [''l''], [''a'']), 3)]),
               (''counter_archived.db'', [((''c'', ''c'', [''l''], [''a'']), 4)])] = Inr dir' \<and>
            stored dir' ''counter_archived.db'' (''c'', ''c'', [''l''], [''a'']) = Some 7) \<and>
   (\<exists>dir'. compact ''gauge_livesum_7_x.db''
              [(''gauge_livesum_7_x.db'', [((''g'', ''g'', [''l''], [''a'']), 2)])] = Inr dir' \<and>
            (\<forall>k. stored dir' ''gauge_livesum_archived.db'' k = None))"
  using compact_sum[of "[(''counter_7_x.db'', [((''c'', ''c'', [''l''], [''a'']), 3)]),
               (''counter_archived.db'', [((''c'', ''c'', [''l''], [''a'']), 4)])]"
      "''counter_7_x.db''" "[((''c'', ''c'', [''l''], [''a'']), 3)]"
      "(''c'', ''c'', [''l''], [''a''])" 3 "''counter''" "''7''" "[''x.db'']"]
    compact_sum[of "[(''gauge_livesum_7_x.db'', [((''g'', ''g'', [''l''], [''a'']), 2)])]"
      "''gauge_livesum_7_x.db''" "[((''g'', ''g'', [''l''], [''a'']), 2)]"
      "(''g'', ''g'', [''l''], [''a''])" 2 "''gauge''" "''7''" "[''x.db'']"]
  by (simp add: stored_def)

theorem compact_livesum_counterexample:
  "compact ''gauge_livesum_7_x.db''
     [(''gauge_livesum_7_x.db'', [((''g'', ''g'', [''l''], [''a'']), 2)])]
     = Inr [(''gauge_livesum_archived.db'', [])] \<and>
   stored [(''gauge_livesum_archived.db'', [])] ''gauge_livesum_archived.db''
     (''g'', ''g'', [''l''], [''a'']) \<noteq> Some (0 + 2)"
  by (simp add: compact_def item_def archive_name_def read_all_values_def compact_entry_def
       stored_def)

text \<open>
  Claim C3, amended. For every (key, value) pair of a gauge/all source file,
  \<^verbatim>\<open>compact\<close> succeeds and the archive \<^verbatim>\<open>gauge_all_archived.db\<close> then holds the
  incoming value itself under the key extended by the label \<^verbatim>\<open>pid\<close>, whose value is
  the third segment of the source file name. A gauge/liveall source is not archived:
  \<^verbatim>\<open>compact\<close> succeeds and the archive holds under every key what it held before.
\<close>

theorem compact_gauge_all:
  assumes "map_of dir srcf = Some src"
    and "distinct (map fst src)"
    and "((metric_name, name, labelnames, labelvalues), value) \<in> set src"
  shows "(split_on CHR ''_'' srcf = ''gauge'' # ''all'' # pid # rest \<and>
          srcf \<noteq> ''gauge_all_archived.db'' \<longrightarrow>
            (\<exists>dir'. compact srcf dir = Inr dir' \<and>
               stored dir' ''gauge_all_archived.db''
                 (metric_name, name, labelnames @ [''pid''], labelvalues @ [pid]) = Some value)) \<and>
         (split_on CHR ''_'' srcf = ''gauge'' # ''liveall'' # pid # rest \<and>
          srcf \<noteq> ''gauge_liveall_archived.db'' \<longrightarrow>
            (\<exists>dir'. compact srcf dir = Inr dir' \<and>
               (\<forall>k. stored dir' ''gauge_liveall_archived.db'' k =
                    stored dir ''gauge_liveall_archived.db'' k)))"
proof (intro conjI impI)
  assume a: "split_on CHR ''_'' srcf = ''gauge'' # ''all'' # pid # rest \<and>
          srcf \<noteq> ''gauge_all_archived.db''"
  let ?arch = "''gauge_all_archived.db''"
  let ?dst = "case map_of dir (archive_name ''gauge'' (Some ''all'')) of None \<Rightarrow> [] | Some st \<Rightarrow> st"
  have an: "archive_name ''gauge'' (Some ''all'') = ?arch" by (simp add: archive_name_def)
  from compact_loop_all[OF assms(2), of pid ?dst]
  obtain dst' where run: "compact_loop ''gauge'' (Some ''all'') pid ?dst src = Inr dst'"
    and new: "\<And>mn n lns lvs v. ((mn, n, lns, lvs), v) \<in> set src \<Longrightarrow>
               map_of dst' (mn, n, lns @ [''pid''], lvs @ [pid]) = Some v"
    by blast
  have "compact srcf dir = Inr (AList.delete srcf (AList.update ?arch dst' dir))"
    using compact_gauge[OF _ assms(1) run] a an by simp
  moreover have "stored (AList.delete srcf (AList.update ?arch dst' dir)) ?arch
                   (metric_name, name, labelnames @ [''pid''], labelvalues @ [pid]) = Some value"
    using new[OF assms(3)] a by (simp add: stored_after)
  ultimately show "\<exists>dir'. compact srcf dir = Inr dir' \<and>
               stored dir' ?arch
                 (metric_name, name, labelnames @ [''pid''], labelvalues @ [pid]) = Some value"
    by blast
next
  assume a: "split_on CHR ''_'' srcf = ''gauge'' # ''liveall'' # pid # rest \<and>
          srcf \<noteq> ''gauge_liveall_archived.db''"
  let ?arch = "''gauge_liveall_archived.db''"
  let ?dst = "case map_of dir (archive_name ''gauge'' (Some ''liveall'')) of None \<Rightarrow> [] | Some st \<Rightarrow> st"
  have an: "archive_name ''gauge'' (Some ''liveall'') = ?arch" by (simp add: archive_name_def)
  have run: "compact_loop ''gauge'' (Some ''liveall'') pid ?dst src = Inr ?dst"
    by (rule compact_loop_live) simp_all
  have "compact srcf dir = Inr (AList.delete srcf (AList.update ?arch ?dst dir))"
    using compact_gauge[OF _ assms(1) run] a an by simp
  moreover have "\<forall>k. stored (AList.delete srcf (AList.update ?arch ?dst dir)) ?arch k =
                   stored dir ?arch k"
    using a stored_dst[of dir ?arch] an by (simp add: stored_after)
  ultimately show "\<exists>dir'. compact srcf dir = Inr dir' \<and>
               (\<forall>k. stored dir' ?arch k = stored dir ?arch k)"
    by blast
qed

theorem compact_gauge_all_witness:
  "(\<exists>dir'. compact ''gauge_all_7_x.db''
              [(''gauge_all_7_x.db'', [((''g'', ''g'', [''l''], [''a'']), 3)]),
               (''gauge_all_archived.db'', [((''g'', ''g'', [''l'', ''pid''], [''a'', ''7'']), 4)])]
              = Inr dir' \<and>
            stored dir' ''gauge_all_archived.db'' (''g'', ''g'', [''l'', ''pid''], [''a'', ''7''])
              = Some 3) \<and>
   (\<exists>dir'. compact ''gauge_liveall_7_x.db''
              [(''gauge_liveall_7_x.db'', [((''g'', ''g'', [''l''], [''a'']), 2)])] = Inr dir' \<and>
            (\<forall>k. stored dir' ''gauge_liveall_archived.db'' k = None))"
  using compact_gauge_all[of "[(''gauge_all_7_x.db'', [((''g'', ''g'', [''l''], [''a'']), 3)]),
               (''gauge_all_archived.db'', [((''g'', ''g'', [''l'', ''pid''], [''a'', ''7'']), 4)])]"
      "''gauge_all_7_x.db''" "[((''g'', ''g'', [''l''], [''a'']), 3)]"
      "''g''" "''g''" "[''l'']" "[''a'']" 3 "''7''" "[''x.db'']"]
    compact_gauge_all[of "[(''gauge_liveall_7_x.db'', [((''g'', ''g'', [''l''], [''a'']), 2)])]"
      "''gauge_liveall_7_x.db''" "[((''g'', ''g'', [''l''], [''a'']), 2)]"
      "''g''" "''g''" "[''l'']" "[''a'']" 2 "''7''" "[''x.db'']"]
  by (simp add: stored_def)

theorem compact_liveall_counterexample:
  "compact ''gauge_liveall_7_x.db''
     [(''gauge_liveall_7_x.db'', [((''g'', ''g'', [''l''], [''a'']), 2)])]
     = Inr [(''gauge_liveall_archived.db'', [])] \<and>
   stored [(''gauge_liveall_archived.db'', [])] ''gauge_liveall_archived.db''
     (''g'', ''g'', [''l'', ''pid''], [''a'', ''7'']) \<noteq> Some 2"
  by (simp add: compact_def item_def archive_name_def read_all_values_def compact_entry_def
       stored_def)

text \<open>
  Claim C4 at a failing input. A gauge/max source whose value for a key is \<open>-5\<close> is
  compacted into a directory with no archive: the guard \<^verbatim>\<open>value > dst.read_value(key)\<close>
  initialises the absent key to 0, finds \<open>-5 > 0\<close> false and skips the branch that
  handles the unset key, so the archive ends with 0 under the key, not \<open>-5\<close>.
\<close>

theorem compact_gauge_max_absent_key:
  "compact ''gauge_max_7_x.db''
     [(''gauge_max_7_x.db'', [((''g'', ''g'', [''l''], [''a'']), - 5)])]
   = Inr [(''gauge_max_archived.db'', [((''g'', ''g'', [''l''], [''a'']), 0)])]"
  by (simp add: compact_def item_def archive_name_def read_all_values_def compact_entry_def
       read_value_def write_value_def)

section \<open>Properties of mark\_process\_dead\<close>




lemma replay_append:
  "replay s (xs @ ys) = (case replay s xs of None \<Rightarrow> None | Some s' \<Rightarrow> replay s' ys)"
  by (induction s xs rule: replay.induct) auto

lemma mark_loop_replay:
  "replay ([], []) tr = Some ([], []) \<Longrightarrow>
   replay ([], []) (snd (fst (mark_loop probe fs (dir, tr)))) = Some ([], [])"
proof (induction fs arbitrary: dir tr)
  case Nil
  then show ?case by simp
next
  case (Cons f fs)
  have 1: "replay ([], []) (tr @ [Open f, Close f]) = Some ([], [])"
    using Cons.prems by (simp add: replay_append)
  have 2: "replay ([], []) (tr @ [Open f, Flock f, Close f, Remove f]) = Some ([], [])"
    using Cons.prems by (simp add: replay_append)
  have 3: "replay ([], []) (tr @ [Open f, Flock f, Close f, Compact f]) = Some ([], [])"
    using Cons.prems by (simp add: replay_append)
  show ?case
    using Cons.prems Cons.IH[OF 1] Cons.IH[OF 2] Cons.IH[OF 3] 1 3
    by (auto split: option.splits flock_result.splits sum.splits)
qed

text \<open>
  Claim C10. In every run of \<^verbatim>\<open>mark_process_dead\<close>, whatever the probes answer and
  however the run ends, a file is removed or compacted only after its probe succeeded and
  the probing handle was closed, which released the lock of the probe, and never while
  a lock of a probing handle on that file is held; no such lock is held at the end.
\<close>

theorem mark_process_dead_closes_first:
  "replay ([], []) (snd (fst (mark_process_dead probe pid dir))) = Some ([], [])"
  unfolding mark_process_dead_def by (rule mark_loop_replay) simp

theorem mark_process_dead_closes_first_witness:
  "snd (fst (mark_process_dead probe_example ''7''
       [(''gauge_liveall_7_x.db'', [gauge_row]), (''counter_7_x.db'', [gauge_row]),
        (''gauge_min_7_x.db'', [gauge_row])])) =
     [Open ''gauge_liveall_7_x.db'', Flock ''gauge_liveall_7_x.db'',
      Close ''gauge_liveall_7_x.db'', Remove ''gauge_liveall_7_x.db'',
      Open ''counter_7_x.db'', Close ''counter_7_x.db'',
      Open ''gauge_min_7_x.db'', Flock ''gauge_min_7_x.db'',
      Close ''gauge_min_7_x.db'', Compact ''gauge_min_7_x.db''] \<and>
   replay ([], []) (snd (fst (mark_process_dead probe_example ''7''
       [(''gauge_liveall_7_x.db'', [gauge_row]), (''counter_7_x.db'', [gauge_row]),
        (''gauge_min_7_x.db'', [gauge_row])]))) = Some ([], [])"
  using mark_process_dead_closes_first[of probe_example "''7''"
       "[(''gauge_liveall_7_x.db'', [gauge_row]), (''counter_7_x.db'', [gauge_row]),
        (''gauge_min_7_x.db'', [gauge_row])]"]
  by (simp add: mark_process_dead_def glob_pid_def matches_pid_def startswith_def endswith_def
        contains_def probe_example_def gauge_row_def compact_def item_def
        archive_name_def read_all_values_def compact_entry_def read_value_def write_value_def)

section \<open>Properties of collect\<close>

subsection \<open>Rows that update one key of the samples\<close>

































subsection \<open>The scan\<close>











subsection \<open>Counters and summaries\<close>











subsection \<open>Histograms: the merge\<close>









subsection \<open>Histograms: the buckets dictionary\<close>




lemma bucket_rows_keys: "fst ` set (bucket_rows bd brs) = fst ` set bd \<union> fst ` set brs"
proof (induction brs arbitrary: bd)
  case Nil
  then show ?case by simp
next
  case (Cons x brs)
  obtain g b v where x: "x = (g, b, v)" by (cases x)
  show ?case using Cons.IH[of "AList.update g (add_to (case map_of bd g of None \<Rightarrow> [] | Some vs \<Rightarrow> vs) b v) bd"] x
    by (auto simp: dom_update)
qed

subsection \<open>Histograms: the accumulation\<close>












subsection \<open>Histograms: sums of increments\<close>





subsection \<open>Histograms: the reconciled samples\<close>










end
